theory Spec2Isabelle
  imports Main
begin

section \<open>The review queue of \<open>frontend/src/App.jsx\<close>\<close>

text \<open>
  \<open>App.jsx\<close> is one React component. It keeps the list of reviews in a \<open>useState\<close>
  cell, fetches it on mount, and offers two handlers, \<open>handleApprove\<close> and
  \<open>handleReject\<close>, that post to the backend and then call \<open>fetchReviews\<close>.

  The three functions are \<open>async\<close>. Each one runs synchronously up to its \<open>await\<close>,
  where the request has gone out and the caller gets a pending promise back; the rest of
  the body runs when the response arrives. The model makes that explicit: a function is
  split at its \<open>await\<close> into the part that sends the request and a continuation, and the
  state records the requests in flight with the continuation each one resumes.
\<close>

subsection \<open>Data\<close>

text \<open>
  One element of \<open>res.data\<close>. The component reads the fields \<open>id\<close>, \<open>pr_number\<close>,
  \<open>branch\<close>, \<open>status\<close> and \<open>ai_feedback\<close>; \<open>status\<close> is compared with the string
  \<open>"PENDING"\<close>, so it is a string here and not an enumeration.
\<close>

record review =
  id_field :: nat
  pr_number :: int
  branch :: string
  status :: string
  ai_feedback :: string

text \<open>A request is the method and path the code builds below \<open>API_URL\<close>.\<close>

datatype request = GetReviews | PostApprove nat | PostReject nat

text \<open>
  What an awaited axios call gives: the promise is fulfilled with a response whose
  \<open>data\<close> is the body, or rejected with an error value. The error value is whatever the
  HTTP library raises; the component never looks inside it, so its type is a parameter.
\<close>

datatype 'e response = Resolved "review list" | Rejected 'e

datatype net_event = Sent nat request | Received nat

text \<open>The code after an \<open>await\<close>, with the promise of the call it belongs to.\<close>

datatype cont = ResumeFetch nat | ResumeApprove nat | ResumeReject nat

text \<open>How the promise of an \<open>async\<close> call ended: it returned, or it threw.\<close>

datatype 'e settlement = Returned | Threw 'e

record 'e app =
  reviews :: "review list"
  console :: "'e list"
  network :: "net_event list"
  pending :: "nat \<rightharpoonup> cont"
  promises :: "nat \<rightharpoonup> 'e settlement"
  next_req :: nat
  next_promise :: nat

text \<open>\<open>useState([])\<close>: the queue starts empty; nothing has been sent or logged.\<close>

definition App_init :: "'e app" where
  "App_init = \<lparr>reviews = [], console = [], network = [], pending = Map.empty,
     promises = Map.empty, next_req = 0, next_promise = 0\<rparr>"

subsection \<open>Primitives\<close>

definition setReviews :: "review list \<Rightarrow> 'e app \<Rightarrow> 'e app" where
  "setReviews d s = s\<lparr>reviews := d\<rparr>"

text \<open>\<open>console.error("Error fetching reviews", error)\<close>\<close>

definition console_error :: "'e \<Rightarrow> 'e app \<Rightarrow> 'e app" where
  "console_error e s = s\<lparr>console := console s @ [e]\<rparr>"

text \<open>
  \<open>await axios.get(...)\<close> and \<open>await axios.post(...)\<close>: the request goes out under a
  fresh number and the caller is suspended with the continuation \<open>k\<close>.
\<close>

definition axios_await :: "request \<Rightarrow> cont \<Rightarrow> 'e app \<Rightarrow> 'e app" where
  "axios_await rq k s =
     s\<lparr>network := network s @ [Sent (next_req s) rq],
       pending := (pending s)(next_req s \<mapsto> k),
       next_req := Suc (next_req s)\<rparr>"

text \<open>Calling an \<open>async\<close> function creates its promise.\<close>

definition new_promise :: "'e app \<Rightarrow> nat \<times> 'e app" where
  "new_promise s = (next_promise s, s\<lparr>next_promise := Suc (next_promise s)\<rparr>)"

definition settle :: "nat \<Rightarrow> 'e settlement \<Rightarrow> 'e app \<Rightarrow> 'e app" where
  "settle p r s = s\<lparr>promises := (promises s)(p \<mapsto> r)\<rparr>"

subsection \<open>\<open>fetchReviews\<close>\<close>

text \<open>
  \<^verbatim>\<open>
  const fetchReviews = async () => {
    try {
      const res = await axios.get(`${API_URL}/reviews`);
      setReviews(res.data);
    } catch (error) {
      console.error("Error fetching reviews", error);
    }
  };
  \<close>
  Up to the \<open>await\<close>: the GET is sent. After it: a fulfilled response replaces the queue
  by \<open>res.data\<close>; a rejection is caught and logged. Either way the function returns
  normally.
\<close>

definition fetchReviews :: "'e app \<Rightarrow> nat \<times> 'e app" where
  "fetchReviews s =
     (let (p, s1) = new_promise s
      in (p, axios_await GetReviews (ResumeFetch p) s1))"

definition fetchReviews_resume :: "nat \<Rightarrow> 'e response \<Rightarrow> 'e app \<Rightarrow> 'e app" where
  "fetchReviews_resume p r s =
     (case r of
        Resolved d \<Rightarrow> settle p Returned (setReviews d s)
      | Rejected e \<Rightarrow> settle p Returned (console_error e s))"

subsection \<open>\<open>handleApprove\<close> and \<open>handleReject\<close>\<close>

text \<open>
  \<^verbatim>\<open>
  const handleApprove = async (id) => {
    await axios.post(`${API_URL}/reviews/${id}/approve`);
    fetchReviews(); // Refresh list
  };
  const handleReject = async (id) => {
    await axios.post(`${API_URL}/reviews/${id}/reject`);
    fetchReviews();
  };
  \<close>
  There is no \<open>try\<close>: a rejected POST makes the \<open>await\<close> throw, and the handler's promise
  is rejected with that error before \<open>fetchReviews\<close> is reached. After a fulfilled POST
  \<open>fetchReviews()\<close> is called and its promise dropped (it is not awaited), so the handler
  returns as soon as the GET has been sent.
\<close>

definition handleApprove :: "nat \<Rightarrow> 'e app \<Rightarrow> nat \<times> 'e app" where
  "handleApprove i s =
     (let (p, s1) = new_promise s
      in (p, axios_await (PostApprove i) (ResumeApprove p) s1))"

definition handleApprove_resume :: "nat \<Rightarrow> 'e response \<Rightarrow> 'e app \<Rightarrow> 'e app" where
  "handleApprove_resume p r s =
     (case r of
        Resolved _ \<Rightarrow> settle p Returned (snd (fetchReviews s))
      | Rejected e \<Rightarrow> settle p (Threw e) s)"

definition handleReject :: "nat \<Rightarrow> 'e app \<Rightarrow> nat \<times> 'e app" where
  "handleReject i s =
     (let (p, s1) = new_promise s
      in (p, axios_await (PostReject i) (ResumeReject p) s1))"

definition handleReject_resume :: "nat \<Rightarrow> 'e response \<Rightarrow> 'e app \<Rightarrow> 'e app" where
  "handleReject_resume p r s =
     (case r of
        Resolved _ \<Rightarrow> settle p Returned (snd (fetchReviews s))
      | Rejected e \<Rightarrow> settle p (Threw e) s)"

subsection \<open>The event loop\<close>

text \<open>
  A response for request \<open>rid\<close> arrives: the request leaves the set in flight and the
  suspended function goes on. A response for a request that is not in flight does nothing.
\<close>

definition deliver :: "nat \<Rightarrow> 'e response \<Rightarrow> 'e app \<Rightarrow> 'e app" where
  "deliver rid r s =
     (case pending s rid of
        None \<Rightarrow> s
      | Some k \<Rightarrow>
          (let s1 = s\<lparr>network := network s @ [Received rid],
                      pending := (pending s)(rid := None)\<rparr>
           in case k of
                ResumeFetch p \<Rightarrow> fetchReviews_resume p r s1
              | ResumeApprove p \<Rightarrow> handleApprove_resume p r s1
              | ResumeReject p \<Rightarrow> handleReject_resume p r s1))"

text \<open>
  What can happen to the component: it is mounted (\<open>useEffect(() => { fetchReviews(); }, [])\<close>),
  one of the two buttons of a card is clicked, or a response arrives.
\<close>

datatype 'e event = Mount | ClickApprove nat | ClickReject nat | Response nat "'e response"

fun step :: "'e event \<Rightarrow> 'e app \<Rightarrow> 'e app" where
  "step Mount s = snd (fetchReviews s)"
| "step (ClickApprove i) s = snd (handleApprove i s)"
| "step (ClickReject i) s = snd (handleReject i s)"
| "step (Response rid r) s = deliver rid r s"

fun run :: "'e event list \<Rightarrow> 'e app \<Rightarrow> 'e app" where
  "run [] s = s"
| "run (ev # evs) s = run evs (step ev s)"

text \<open>
  A call whose request is answered with \<open>r\<close> before anything else happens: the request
  sent by the call is the one numbered \<open>next_req s\<close>.
\<close>

definition refresh :: "'e response \<Rightarrow> 'e app \<Rightarrow> 'e app" where
  "refresh r s = deliver (next_req s) r (snd (fetchReviews s))"

definition approveItem :: "nat \<Rightarrow> 'e response \<Rightarrow> 'e app \<Rightarrow> 'e app" where
  "approveItem i r s = deliver (next_req s) r (snd (handleApprove i s))"

definition rejectItem :: "nat \<Rightarrow> 'e response \<Rightarrow> 'e app \<Rightarrow> 'e app" where
  "rejectItem i r s = deliver (next_req s) r (snd (handleReject i s))"

subsection \<open>Rendering\<close>

text \<open>
  The JSX maps every review to a card showing \<open>pr_number\<close>, \<open>branch\<close>, \<open>status\<close> and
  \<open>ai_feedback\<close>. The last child is
  \<open>{review.status === "PENDING" && (<div> <button .../> <button .../> </div>)}\<close>:
  two buttons when the status is the string \<open>PENDING\<close>, nothing otherwise.
\<close>

datatype button = Button string "nat event"

record card_view =
  card_key :: nat
  card_pr_number :: int
  card_branch :: string
  card_status :: string
  card_feedback :: string
  card_buttons :: "button list"

definition render_card :: "review \<Rightarrow> card_view" where
  "render_card review =
     \<lparr>card_key = id_field review,
      card_pr_number = pr_number review,
      card_branch = branch review,
      card_status = status review,
      card_feedback = ai_feedback review,
      card_buttons =
        (if status review = ''PENDING''
         then [Button ''Approve & Post'' (ClickApprove (id_field review)),
               Button ''Reject'' (ClickReject (id_field review))]
         else [])\<rparr>"

definition render :: "'e app \<Rightarrow> card_view list" where
  "render s = map render_card (reviews s)"

subsection \<open>Error values\<close>

text \<open>
  The error values a rejected request can carry. \<open>AxiosError\<close> is what the HTTP library
  rejects with: it holds the status of the response, or nothing when no response came.
  \<open>NotFoundError\<close>, \<open>BackendError\<close> and \<open>NetworkError\<close> are the three kinds the
  specification names; no line of \<open>App.jsx\<close> constructs one of them.
\<close>

datatype js_error = AxiosError "nat option" | NotFoundError | BackendError | NetworkError

subsection \<open>Sample data\<close>

text \<open>
  Two reviews used to run the theorems on: the item of the specification's scenario A,
  and the same item after it was approved.
\<close>

definition review_a :: review where
  "review_a = \<lparr>id_field = 1, pr_number = 42, branch = ''feature-x'',
     status = ''PENDING'', ai_feedback = ''Looks fine''\<rparr>"

definition review_b :: review where
  "review_b = \<lparr>id_field = 1, pr_number = 42, branch = ''feature-x'',
     status = ''APPROVED'', ai_feedback = ''Looks fine''\<rparr>"

section \<open>Basic facts\<close>

lemmas app_defs = setReviews_def console_error_def axios_await_def new_promise_def
  settle_def fetchReviews_def fetchReviews_resume_def handleApprove_def
  handleApprove_resume_def handleReject_def handleReject_resume_def deliver_def

text \<open>Request numbers only grow, so a request in flight is never overwritten.\<close>

lemma next_req_step: "next_req s \<le> next_req (step ev s)"
  by (cases ev) (auto simp: app_defs Let_def split: option.splits cont.splits response.splits)

lemma pending_step:
  "rid < next_req s \<Longrightarrow> \<forall>r. ev \<noteq> Response rid r \<Longrightarrow> pending (step ev s) rid = pending s rid"
  by (cases ev) (auto simp: app_defs Let_def split: option.splits cont.splits response.splits)

lemma pending_run:
  "rid < next_req s \<Longrightarrow> \<forall>ev\<in>set evs. \<forall>r. ev \<noteq> Response rid r \<Longrightarrow>
   pending (run evs s) rid = pending s rid"
proof (induction evs arbitrary: s)
  case Nil
  then show ?case by simp
next
  case (Cons ev evs)
  have "rid < next_req (step ev s)"
    using Cons.prems(1) next_req_step [of s ev] by simp
  then have "pending (run evs (step ev s)) rid = pending (step ev s) rid"
    using Cons.IH Cons.prems(2) by simp
  then show ?case
    using pending_step [of rid s ev] Cons.prems by simp
qed

text \<open>The network log is append-only.\<close>

lemma network_step: "\<exists>zs. network (step ev s) = network s @ zs"
  by (cases ev) (auto simp: app_defs Let_def split: option.splits cont.splits response.splits)

lemma network_run: "\<exists>zs. network (run evs s) = network s @ zs"
proof (induction evs arbitrary: s)
  case Nil
  then show ?case by simp
next
  case (Cons ev evs)
  obtain ys where ys: "network (step ev s) = network s @ ys"
    using network_step by blast
  obtain zs where "network (run evs (step ev s)) = network (step ev s) @ zs"
    using Cons.IH by blast
  with ys show ?case by simp
qed

text \<open>
  The only event that writes the queue is a fulfilled response that resumes
  \<open>fetchReviews\<close>, and it writes the body of that response.
\<close>

lemma reviews_step:
  "reviews (step ev s) = reviews s \<or>
   (\<exists>rid p. ev = Response rid (Resolved (reviews (step ev s))) \<and>
            pending s rid = Some (ResumeFetch p))"
  by (cases ev) (auto simp: app_defs Let_def split: option.splits cont.splits response.splits)

lemma reviews_run:
  "reviews (run evs s) = reviews s \<or>
   (\<exists>rid. Response rid (Resolved (reviews (run evs s))) \<in> set evs)"
proof (induction evs arbitrary: s)
  case Nil
  then show ?case by simp
next
  case (Cons ev evs)
  let ?s1 = "step ev s"
  consider (same) "reviews (run evs ?s1) = reviews ?s1"
    | (later) rid where "Response rid (Resolved (reviews (run evs ?s1))) \<in> set evs"
    using Cons.IH [of ?s1] by blast
  then show ?case
  proof cases
    case same
    consider (keep) "reviews ?s1 = reviews s"
      | (here) rid where "ev = Response rid (Resolved (reviews ?s1))"
      using reviews_step [of ev s] by blast
    then show ?thesis
    proof cases
      case keep
      with same show ?thesis by simp
    next
      case here
      with same have "Response rid (Resolved (reviews (run (ev # evs) s))) \<in> set (ev # evs)"
        by simp
      then show ?thesis by blast
    qed
  next
    case later
    then have "Response rid (Resolved (reviews (run (ev # evs) s))) \<in> set (ev # evs)"
      by simp
    then show ?thesis by blast
  qed
qed

text \<open>What a call leaves behind at its \<open>await\<close>.\<close>

lemma fetch_pending:
  "pending (snd (fetchReviews s)) (next_req s) = Some (ResumeFetch (next_promise s))"
  by (simp add: app_defs)

lemma fetch_next_req: "next_req (snd (fetchReviews s)) = Suc (next_req s)"
  by (simp add: app_defs)

lemma handle_pending:
  "pending (snd (handleApprove i s)) (next_req s) = Some (ResumeApprove (next_promise s))"
  "pending (snd (handleReject i s)) (next_req s) = Some (ResumeReject (next_promise s))"
  by (simp_all add: app_defs)

lemma handle_next_req:
  "next_req (snd (handleApprove i s)) = Suc (next_req s)"
  "next_req (snd (handleReject i s)) = Suc (next_req s)"
  by (simp_all add: app_defs)

lemma handle_network:
  "network (snd (handleApprove i s)) = network s @ [Sent (next_req s) (PostApprove i)]"
  "network (snd (handleReject i s)) = network s @ [Sent (next_req s) (PostReject i)]"
  by (simp_all add: app_defs)

lemma deliver_fetch_resolved:
  "pending s rid = Some (ResumeFetch p) \<Longrightarrow> reviews (deliver rid (Resolved d) s) = d"
  by (simp add: app_defs)

lemma deliver_mutation_resolved:
  "pending s rid = Some (ResumeApprove p) \<or> pending s rid = Some (ResumeReject p) \<Longrightarrow>
   network (deliver rid (Resolved d) s) =
     network s @ [Received rid, Sent (next_req s) GetReviews]"
  by (auto simp: app_defs)

text \<open>A response to request \<open>rid\<close> is logged only when that response is delivered.\<close>

lemma received_step:
  "\<forall>r. ev \<noteq> Response rid r \<Longrightarrow>
   \<exists>zs. network (step ev s) = network s @ zs \<and> Received rid \<notin> set zs"
  by (cases ev) (auto simp: app_defs Let_def split: option.splits cont.splits response.splits)

lemma received_run:
  "\<forall>ev\<in>set evs. \<forall>r. ev \<noteq> Response rid r \<Longrightarrow>
   \<exists>zs. network (run evs s) = network s @ zs \<and> Received rid \<notin> set zs"
proof (induction evs arbitrary: s)
  case Nil
  then show ?case by simp
next
  case (Cons ev evs)
  obtain ys where ys: "network (step ev s) = network s @ ys" "Received rid \<notin> set ys"
    using received_step [of ev rid s] Cons.prems by auto
  obtain zs where zs: "network (run evs (step ev s)) = network (step ev s) @ zs"
      "Received rid \<notin> set zs"
    using Cons.IH [of "step ev s"] Cons.prems by auto
  have "network (run (ev # evs) s) = network s @ (ys @ zs)" "Received rid \<notin> set (ys @ zs)"
    using ys zs by simp_all
  then show ?case by blast
qed

lemma approve_order:
  assumes "\<forall>ev\<in>set evs. \<forall>r. ev \<noteq> Response (next_req s) r"
  shows "pending (run evs (snd (handleApprove i s))) (next_req s)
      = Some (ResumeApprove (next_promise s)) \<and>
    (\<exists>mid.
      network (run evs (snd (handleApprove i s))) =
        network s @ [Sent (next_req s) (PostApprove i)] @ mid \<and>
      Received (next_req s) \<notin> set mid \<and>
      network (step (Response (next_req s) (Resolved d)) (run evs (snd (handleApprove i s)))) =
        network s @ [Sent (next_req s) (PostApprove i)] @ mid @
          [Received (next_req s),
           Sent (next_req (run evs (snd (handleApprove i s)))) GetReviews])"
proof -
  let ?s1 = "snd (handleApprove i s)"
  obtain mid where mid: "network (run evs ?s1) = network ?s1 @ mid"
      "Received (next_req s) \<notin> set mid"
    using received_run [OF assms, of ?s1] by blast
  have pend: "pending (run evs ?s1) (next_req s) = Some (ResumeApprove (next_promise s))"
    using pending_run [of "next_req s" ?s1 evs] assms
    by (simp add: handle_pending handle_next_req)
  then have "network (deliver (next_req s) (Resolved d) (run evs ?s1)) =
      network (run evs ?s1) @ [Received (next_req s), Sent (next_req (run evs ?s1)) GetReviews]"
    using deliver_mutation_resolved by blast
  with mid pend show ?thesis
    by (simp add: handle_network)
qed

lemma reject_order:
  assumes "\<forall>ev\<in>set evs. \<forall>r. ev \<noteq> Response (next_req s) r"
  shows "pending (run evs (snd (handleReject i s))) (next_req s)
      = Some (ResumeReject (next_promise s)) \<and>
    (\<exists>mid.
      network (run evs (snd (handleReject i s))) =
        network s @ [Sent (next_req s) (PostReject i)] @ mid \<and>
      Received (next_req s) \<notin> set mid \<and>
      network (step (Response (next_req s) (Resolved d)) (run evs (snd (handleReject i s)))) =
        network s @ [Sent (next_req s) (PostReject i)] @ mid @
          [Received (next_req s),
           Sent (next_req (run evs (snd (handleReject i s)))) GetReviews])"
proof -
  let ?s1 = "snd (handleReject i s)"
  obtain mid where mid: "network (run evs ?s1) = network ?s1 @ mid"
      "Received (next_req s) \<notin> set mid"
    using received_run [OF assms, of ?s1] by blast
  have pend: "pending (run evs ?s1) (next_req s) = Some (ResumeReject (next_promise s))"
    using pending_run [of "next_req s" ?s1 evs] assms
    by (simp add: handle_pending handle_next_req)
  then have "network (deliver (next_req s) (Resolved d) (run evs ?s1)) =
      network (run evs ?s1) @ [Received (next_req s), Sent (next_req (run evs ?s1)) GetReviews]"
    using deliver_mutation_resolved by blast
  with mid pend show ?thesis
    by (simp add: handle_network)
qed

lemma sequential_order:
  "network (snd (handleApprove i s)) = network s @ [Sent (next_req s) (PostApprove i)] \<and>
   network (approveItem i (Resolved d) s) =
     network s @ [Sent (next_req s) (PostApprove i), Received (next_req s),
                  Sent (Suc (next_req s)) GetReviews] \<and>
   network (snd (handleReject i s)) = network s @ [Sent (next_req s) (PostReject i)] \<and>
   network (rejectItem i (Resolved d) s) =
     network s @ [Sent (next_req s) (PostReject i), Received (next_req s),
                  Sent (Suc (next_req s)) GetReviews]"
  by (simp add: approveItem_def rejectItem_def app_defs)

section \<open>The claims\<close>

text \<open>
  C1. When \<open>fetchReviews\<close> has sent its GET and the response is fulfilled with body \<open>d\<close>,
  the queue is exactly \<open>d\<close> afterwards: same items, same order. This holds whatever
  else happens between the call and its response (other clicks, other responses), as long
  as the response to this request comes once.
\<close>

theorem fetchReviews_success_replaces_queue:
  assumes "\<forall>ev\<in>set evs. \<forall>r. ev \<noteq> Response (next_req s) r"
  shows "reviews (step (Response (next_req s) (Resolved d))
                   (run evs (snd (fetchReviews s)))) = d"
proof -
  have "pending (run evs (snd (fetchReviews s))) (next_req s)
          = Some (ResumeFetch (next_promise s))"
    using pending_run [of "next_req s" "snd (fetchReviews s)" evs] assms
    by (simp add: fetch_pending fetch_next_req)
  then show ?thesis
    by (simp add: deliver_fetch_resolved)
qed

theorem fetchReviews_success_replaces_queue_witness:
  "(\<forall>r. ClickApprove 1 \<noteq> Response (next_req (App_init :: string app)) r) \<and>
   (\<forall>r. Response 1 (Rejected ''boom'') \<noteq> Response (next_req (App_init :: string app)) r) \<and>
   reviews (step (Response (next_req (App_init :: string app)) (Resolved [review_a, review_b]))
     (run [ClickApprove 1, Response 1 (Rejected ''boom'')] (snd (fetchReviews App_init))))
   = [review_a, review_b]"
  using fetchReviews_success_replaces_queue
    [of "[ClickApprove 1, Response 1 (Rejected ''boom'')]" "App_init :: string app"
        "[review_a, review_b]"]
  by (simp add: App_init_def)

text \<open>
  C2. The card rendered for the \<open>i\<close>-th review of the queue carries the approve and the
  reject button, wired to that review's id, when its status is the string \<open>PENDING\<close>,
  and no button at all for any other status. There is one card per review, in queue
  order.
\<close>

theorem render_buttons_iff_pending:
  assumes "i < length (reviews s)"
  shows "length (render s) = length (reviews s) \<and>
    card_key (render s ! i) = id_field (reviews s ! i) \<and>
    card_buttons (render s ! i) =
      (if status (reviews s ! i) = ''PENDING''
       then [Button ''Approve & Post'' (ClickApprove (id_field (reviews s ! i))),
             Button ''Reject'' (ClickReject (id_field (reviews s ! i)))]
       else [])"
  using assms by (simp add: render_def render_card_def)

theorem render_buttons_iff_pending_witness:
  "(0::nat) < length (reviews (setReviews [review_a, review_b] (App_init :: string app))) \<and>
   (1::nat) < length (reviews (setReviews [review_a, review_b] (App_init :: string app))) \<and>
   card_buttons (render (setReviews [review_a, review_b] (App_init :: string app)) ! 0) =
     [Button ''Approve & Post'' (ClickApprove 1), Button ''Reject'' (ClickReject 1)] \<and>
   card_buttons (render (setReviews [review_a, review_b] (App_init :: string app)) ! 1) = []"
  using render_buttons_iff_pending [of 0 "setReviews [review_a, review_b] (App_init :: string app)"]
        render_buttons_iff_pending [of 1 "setReviews [review_a, review_b] (App_init :: string app)"]
  by (simp add: setReviews_def App_init_def review_a_def review_b_def)


text \<open>
  C4. The part of \<open>handleApprove\<close> (of \<open>handleReject\<close>) that runs at the call sends the
  POST and nothing else. While other events happen the POST stays in flight, and the
  traffic \<open>mid\<close> they cause holds no response to it. The GET of the refresh is sent in
  the step that delivers the response to the POST, right after that response is logged.
  With no event in between the log of the whole call is: POST sent, POST answered, GET
  sent.
\<close>

theorem mutation_completes_before_refresh:
  assumes "\<forall>ev\<in>set evs. \<forall>r. ev \<noteq> Response (next_req s) r"
  shows "network (snd (handleApprove i s)) = network s @ [Sent (next_req s) (PostApprove i)] \<and>
    network (approveItem i (Resolved d) s) =
      network s @ [Sent (next_req s) (PostApprove i), Received (next_req s),
                   Sent (Suc (next_req s)) GetReviews] \<and>
    pending (run evs (snd (handleApprove i s))) (next_req s)
      = Some (ResumeApprove (next_promise s)) \<and>
    (\<exists>mid.
      network (run evs (snd (handleApprove i s))) =
        network s @ [Sent (next_req s) (PostApprove i)] @ mid \<and>
      Received (next_req s) \<notin> set mid \<and>
      network (step (Response (next_req s) (Resolved d)) (run evs (snd (handleApprove i s)))) =
        network s @ [Sent (next_req s) (PostApprove i)] @ mid @
          [Received (next_req s),
           Sent (next_req (run evs (snd (handleApprove i s)))) GetReviews]) \<and>
    network (snd (handleReject i s)) = network s @ [Sent (next_req s) (PostReject i)] \<and>
    network (rejectItem i (Resolved d) s) =
      network s @ [Sent (next_req s) (PostReject i), Received (next_req s),
                   Sent (Suc (next_req s)) GetReviews] \<and>
    pending (run evs (snd (handleReject i s))) (next_req s)
      = Some (ResumeReject (next_promise s)) \<and>
    (\<exists>mid.
      network (run evs (snd (handleReject i s))) =
        network s @ [Sent (next_req s) (PostReject i)] @ mid \<and>
      Received (next_req s) \<notin> set mid \<and>
      network (step (Response (next_req s) (Resolved d)) (run evs (snd (handleReject i s)))) =
        network s @ [Sent (next_req s) (PostReject i)] @ mid @
          [Received (next_req s),
           Sent (next_req (run evs (snd (handleReject i s)))) GetReviews])"
  using approve_order [OF assms, of i d] reject_order [OF assms, of i d]
    sequential_order [of i s d]
  by blast

theorem mutation_completes_before_refresh_witness:
  "(\<forall>r. Mount \<noteq> Response (next_req (setReviews [review_a] (App_init :: string app))) r) \<and>
   (\<forall>r. ClickReject 3 \<noteq> Response (next_req (setReviews [review_a] (App_init :: string app))) r) \<and>
   network (snd (handleApprove 1 (setReviews [review_a] (App_init :: string app)))) = [Sent 0 (PostApprove 1)] \<and>
   network (approveItem 1 (Resolved []) (setReviews [review_a] (App_init :: string app))) =
     [Sent 0 (PostApprove 1), Received 0, Sent 1 GetReviews] \<and>
   network (run [Mount, ClickReject 3] (snd (handleApprove 1 (setReviews [review_a] (App_init :: string app))))) =
     [Sent 0 (PostApprove 1), Sent 1 GetReviews, Sent 2 (PostReject 3)] \<and>
   network (step (Response 0 (Resolved []))
      (run [Mount, ClickReject 3] (snd (handleApprove 1 (setReviews [review_a] (App_init :: string app)))))) =
     [Sent 0 (PostApprove 1), Sent 1 GetReviews, Sent 2 (PostReject 3),
      Received 0, Sent 3 GetReviews]"
  using mutation_completes_before_refresh
    [of "[Mount, ClickReject 3]" "setReviews [review_a] (App_init :: string app)" 1 "[]"]
  by (simp add: App_init_def approveItem_def app_defs)




text \<open>
  C7. Every event either leaves the queue as it is or is a fulfilled response resuming
  \<open>fetchReviews\<close>, and then the new queue is that response's body as a whole. So after
  any sequence of events the queue is the initial empty list or the body of one of the
  fulfilled responses; no item is ever edited, inserted or removed by the component.
\<close>

theorem queue_changes_are_snapshots:
  "(reviews (step ev s) = reviews s \<or>
    (\<exists>rid p. ev = Response rid (Resolved (reviews (step ev s))) \<and>
             pending s rid = Some (ResumeFetch p))) \<and>
   (reviews (run evs (App_init :: 'e app)) = [] \<or>
    (\<exists>rid. Response rid (Resolved (reviews (run evs (App_init :: 'e app)))) \<in> set evs))"
  using reviews_step [of ev s] reviews_run [of evs "App_init :: 'e app"]
  by (simp add: App_init_def)

text \<open>
  C8. The queue starts empty and stays empty, with nothing rendered, until a response is
  fulfilled: mounting, clicking and rejected responses do not change it.
\<close>

theorem initial_queue_empty:
  assumes "\<forall>ev\<in>set evs. \<forall>rid d. ev \<noteq> Response rid (Resolved d)"
  shows "reviews (run evs (App_init :: 'e app)) = [] \<and> render (run evs (App_init :: 'e app)) = []"
proof -
  have "reviews (run evs (App_init :: 'e app)) = reviews (App_init :: 'e app)"
    using reviews_run [of evs "App_init :: 'e app"] assms by blast
  then show ?thesis
    by (simp add: App_init_def render_def)
qed

theorem initial_queue_empty_witness:
  "(\<forall>rid d. Mount \<noteq> Response rid (Resolved d)) \<and>
   (\<forall>rid d. Response 0 (Rejected ''timeout'') \<noteq> Response rid (Resolved d)) \<and>
   reviews (run [] (App_init :: string app)) = [] \<and>
   reviews (run [Mount, Response 0 (Rejected ''timeout'')] (App_init :: string app)) = [] \<and>
   render (run [Mount, Response 0 (Rejected ''timeout'')] (App_init :: string app)) = []"
  using initial_queue_empty [of "[Mount, Response 0 (Rejected ''timeout'')]"]
        initial_queue_empty [of "[] :: string event list"]
  by simp

text \<open>
  C9. Two refreshes in a row that both get the body \<open>d\<close> leave the queue at \<open>d\<close> after
  the first and after the second.
\<close>

theorem refresh_idempotent:
  "reviews (refresh (Resolved d) s) = d \<and>
   reviews (refresh (Resolved d) (refresh (Resolved d) s)) = reviews (refresh (Resolved d) s)"
  by (simp add: refresh_def app_defs)


end
